theory Spec2Isabelle
  imports Main "HOL-Library.Word"
begin

unbundle bit_operations_syntax

section \<open>Data model of cmd/lb/balancer.go\<close>

text \<open>
  Go's \<open>int\<close> is taken at its 64-bit width: \<open>+\<close> wraps around and \<open><\<close> is the signed
  comparison \<open><s\<close>. Instants (\<open>time.Time\<close>) and durations are integers counting
  nanoseconds. The log lines of the source are not modelled: they do not influence any
  value the program computes.
\<close>

type_synonym go_int = "64 word"
type_synonym time = int
type_synonym duration = int
type_synonym byte = "8 word"

definition second :: duration where
  "second = 1000000000"

record sizeTimestamp =
  size' :: go_int
  timestamp :: time

text \<open>The map \<open>traffic\<close>: backend name to its queue of samples, oldest first.\<close>

type_synonym ledger = "string \<rightharpoonup> sizeTimestamp list"

text \<open>
  The package-level variables. The four flag fields hold what the pointers returned by
  \<open>flag.Int\<close> and \<open>flag.Bool\<close> point to.
\<close>

record globals =
  port :: int
  timeoutSec :: int
  https :: bool
  traceEnabled :: bool
  timeout :: duration
  serversPool :: "string list"
  traffic :: ledger

text \<open>What the command line sets; \<open>None\<close> is a flag that is not given.\<close>

record cmdline =
  portArg :: "int option"
  timeoutSecArg :: "int option"
  httpsArg :: "bool option"
  traceArg :: "bool option"

subsection \<open>The HTTP boundary\<close>

datatype error = DeadlineExceeded | ConnectionRefused | NoSuchHost | UnexpectedEOF

text \<open>
  A request, with the bound its context puts on the call: \<open>None\<close> is a context without
  deadline, \<open>Some d\<close> one that is cancelled after \<open>d\<close>.
\<close>

record request =
  reqMethod :: string
  urlScheme :: string
  urlHost :: string
  urlPath :: string
  reqHost :: string
  requestURI :: string
  reqBody :: "byte list"
  reqCtx :: "duration option"

text \<open>\<open>io.ReadAll(resp.Body)\<close> either fails or gives the whole body.\<close>

datatype readResult = ReadErr error | ReadOk "byte list"

text \<open>
  A backend response. \<open>respHeader\<close> lists the entries of the map \<open>resp.Header\<close> in
  the order the \<open>range\<close> statement of \<open>forward\<close> visits them.
\<close>

record response =
  statusCode :: int
  respHeader :: "(string \<times> string list) list"
  respBody :: readResult

text \<open>The result of \<open>http.DefaultClient.Do\<close>: the network answers, it is an input.\<close>

datatype doResult = DoErr error | DoResp response

text \<open>
  The \<open>http.ResponseWriter\<close> of the inbound call: its header map, the status line once
  it is written, and the body bytes handed to \<open>Write\<close>. An error that \<open>Write\<close>
  returns is only logged by the source.
\<close>

record responseWriter =
  rwHeader :: "string \<rightharpoonup> string list"
  rwStatus :: "int option"
  rwBody :: "byte list"

definition StatusOK :: int where "StatusOK = 200"
definition StatusInternalServerError :: int where "StatusInternalServerError = 500"
definition StatusServiceUnavailable :: int where "StatusServiceUnavailable = 503"

text \<open>\<open>WriteHeader\<close>: the first call fixes the status, a later one is ignored.\<close>

definition writeHeader :: "int \<Rightarrow> responseWriter \<Rightarrow> responseWriter" where
  "writeHeader code rw = (if rwStatus rw = None then rw\<lparr>rwStatus := Some code\<rparr> else rw)"

text \<open>\<open>Write\<close>: sends status 200 first when no status was written.\<close>

definition writeBytes :: "byte list \<Rightarrow> responseWriter \<Rightarrow> responseWriter" where
  "writeBytes bs rw = (let rw1 = writeHeader StatusOK rw in rw1\<lparr>rwBody := rwBody rw1 @ bs\<rparr>)"

subsection \<open>Header keys\<close>

text \<open>
  \<open>Header.Add\<close> and \<open>Header.Set\<close> store under \<open>textproto.CanonicalMIMEHeaderKey\<close>:
  a key made of header field bytes gets an upper-case first letter and an upper-case
  letter after each hyphen, all other letters lower-case; any other key is kept as it is.
\<close>

definition isLower :: "char \<Rightarrow> bool" where
  "isLower c = (97 \<le> (of_char c :: nat) \<and> (of_char c :: nat) \<le> 122)"

definition isUpper :: "char \<Rightarrow> bool" where
  "isUpper c = (65 \<le> (of_char c :: nat) \<and> (of_char c :: nat) \<le> 90)"

definition isDigit :: "char \<Rightarrow> bool" where
  "isDigit c = (48 \<le> (of_char c :: nat) \<and> (of_char c :: nat) \<le> 57)"

definition toUpper :: "char \<Rightarrow> char" where
  "toUpper c = (if isLower c then char_of ((of_char c :: nat) - 32) else c)"

definition toLower :: "char \<Rightarrow> char" where
  "toLower c = (if isUpper c then char_of ((of_char c :: nat) + 32) else c)"

definition validHeaderFieldByte :: "char \<Rightarrow> bool" where
  "validHeaderFieldByte c =
     (isLower c \<or> isUpper c \<or> isDigit c \<or>
      (of_char c :: nat) \<in> set [33, 35, 36, 37, 38, 39, 42, 43, 45, 46, 94, 95, 96, 124, 126])"

fun canonLoop :: "bool \<Rightarrow> string \<Rightarrow> string" where
  "canonLoop upper [] = []"
| "canonLoop upper (c # cs) =
     (if upper then toUpper c else toLower c) # canonLoop (c = CHR ''-'') cs"

definition canonicalMIMEHeaderKey :: "string \<Rightarrow> string" where
  "canonicalMIMEHeaderKey s =
     (if list_all validHeaderFieldByte s then canonLoop True s else s)"

definition headerValues :: "(string \<rightharpoonup> string list) \<Rightarrow> string \<Rightarrow> string list" where
  "headerValues h k = (case h k of None \<Rightarrow> [] | Some vs \<Rightarrow> vs)"

definition headerAdd :: "string \<Rightarrow> string \<Rightarrow> responseWriter \<Rightarrow> responseWriter" where
  "headerAdd key val rw =
     (let k = canonicalMIMEHeaderKey key
      in rw\<lparr>rwHeader := (rwHeader rw)(k \<mapsto> headerValues (rwHeader rw) k @ [val])\<rparr>)"

definition headerSet :: "string \<Rightarrow> string \<Rightarrow> responseWriter \<Rightarrow> responseWriter" where
  "headerSet key val rw =
     rw\<lparr>rwHeader := (rwHeader rw)(canonicalMIMEHeaderKey key \<mapsto> [val])\<rparr>"

section \<open>Configuration and start-up\<close>

definition scheme :: "globals \<Rightarrow> string" where
  "scheme g = (if https g then ''https'' else ''http'')"

text \<open>
  The two \<open>var\<close> blocks, initialised before \<open>main\<close> runs: the flags are registered
  with their defaults, and \<open>timeout\<close> is computed from what \<open>timeoutSec\<close> points to
  at that moment. The pool is a parameter; the source fixes it to \<open>defaultPool\<close>.
\<close>

definition defaultPool :: "string list" where
  "defaultPool = [''server1:8080'', ''server2:8080'', ''server3:8080'']"

definition packageInit :: "string list \<Rightarrow> globals" where
  "packageInit pool =
     (let timeoutSec0 = 3
      in \<lparr>port = 8090, timeoutSec = timeoutSec0, https = False, traceEnabled = False,
          timeout = timeoutSec0 * second, serversPool = pool, traffic = Map.empty\<rparr>)"

definition flagParse :: "cmdline \<Rightarrow> globals \<Rightarrow> globals" where
  "flagParse cl g =
     g\<lparr>port := (case portArg cl of None \<Rightarrow> port g | Some v \<Rightarrow> v),
       timeoutSec := (case timeoutSecArg cl of None \<Rightarrow> timeoutSec g | Some v \<Rightarrow> v),
       https := (case httpsArg cl of None \<Rightarrow> https g | Some v \<Rightarrow> v),
       traceEnabled := (case traceArg cl of None \<Rightarrow> traceEnabled g | Some v \<Rightarrow> v)\<rparr>"

text \<open>The first loop of \<open>main\<close>: every pooled server gets an empty queue.\<close>

fun initTraffic :: "string list \<Rightarrow> ledger \<Rightarrow> ledger" where
  "initTraffic [] m = m"
| "initTraffic (server # rest) m = initTraffic rest (m(server \<mapsto> []))"

text \<open>\<open>main\<close> up to the point where the goroutines and the server are started.\<close>

definition mainInit :: "cmdline \<Rightarrow> string list \<Rightarrow> globals" where
  "mainInit cl pool =
     (let g = flagParse cl (packageInit pool)
      in g\<lparr>traffic := initTraffic (serversPool g) (traffic g)\<rparr>)"

section \<open>The traffic ledger\<close>

text \<open>Reading \<open>traffic[k]\<close>: a missing key gives the nil slice.\<close>

definition queueOf :: "ledger \<Rightarrow> string \<Rightarrow> sizeTimestamp list" where
  "queueOf m k = (case m k of None \<Rightarrow> [] | Some q \<Rightarrow> q)"

text \<open>
  The summing loop that \<open>incrementTraffic\<close>, the health goroutine and the dispatcher
  each run over a queue.
\<close>

fun sumLoop :: "sizeTimestamp list \<Rightarrow> go_int \<Rightarrow> go_int" where
  "sumLoop [] totalTraffic = totalTraffic"
| "sumLoop (st # rest) totalTraffic = sumLoop rest (totalTraffic + size' st)"

definition serverTraffic :: "sizeTimestamp list \<Rightarrow> go_int" where
  "serverTraffic queue = sumLoop queue 0"

definition incrementTraffic :: "time \<Rightarrow> string \<Rightarrow> go_int \<Rightarrow> ledger \<Rightarrow> ledger" where
  "incrementTraffic now dst sz m =
     m(dst \<mapsto> queueOf m dst @ [\<lparr>size' = sz, timestamp = now\<rparr>])"

text \<open>The inner loop of \<open>reduceTraffic\<close>, with \<open>newQueue\<close> as accumulator.\<close>

fun pruneLoop :: "time \<Rightarrow> sizeTimestamp list \<Rightarrow> sizeTimestamp list \<Rightarrow> sizeTimestamp list" where
  "pruneLoop cutoff [] newQueue = newQueue"
| "pruneLoop cutoff (st # rest) newQueue =
     (if timestamp st > cutoff then pruneLoop cutoff rest (newQueue @ [st])
      else pruneLoop cutoff rest newQueue)"

text \<open>
  The body of one tick of \<open>reduceTraffic\<close>; the ticker repeats it every second for as
  long as the process runs. The argument lists the servers in the order the \<open>range\<close>
  statement visits them, each with the reading of \<open>time.Now()\<close> taken in its iteration.
\<close>

fun reduceTraffic :: "(string \<times> time) list \<Rightarrow> ledger \<Rightarrow> ledger" where
  "reduceTraffic [] m = m"
| "reduceTraffic ((server, now) # rest) m =
     (let cutoff = now + (- 5 * second)
      in reduceTraffic rest (m(server \<mapsto> pruneLoop cutoff (queueOf m server) [])))"

section \<open>Health probe\<close>

definition withTimeout :: "duration option \<Rightarrow> duration \<Rightarrow> duration option" where
  "withTimeout parent d = (case parent of None \<Rightarrow> Some d | Some p \<Rightarrow> Some (min p d))"

definition healthRequest :: "globals \<Rightarrow> string \<Rightarrow> request" where
  "healthRequest g dst =
     \<lparr>reqMethod = ''GET'', urlScheme = scheme g, urlHost = dst, urlPath = ''/health'',
      reqHost = dst, requestURI = '''', reqBody = [],
      reqCtx = withTimeout None (timeout g)\<rparr>"

definition health :: "globals \<Rightarrow> (request \<Rightarrow> doResult) \<Rightarrow> string \<Rightarrow> bool" where
  "health g client dst =
     (case client (healthRequest g dst) of
        DoErr err \<Rightarrow> False
      | DoResp resp \<Rightarrow> if statusCode resp \<noteq> StatusOK then False else True)"

text \<open>
  The spec's words for a healthy answer, "an HTTP success-class status code": the codes
  200 to 299. This predicate follows the spec, not the source; it is compared with
  \<open>health\<close> below.
\<close>

definition specSuccessClass :: "int \<Rightarrow> bool" where
  "specSuccessClass code = (200 \<le> code \<and> code \<le> 299)"

section \<open>Forwarding\<close>

text \<open>What a call leaves behind: the response writer, the ledger, the outbound calls.\<close>

record effects =
  effRw :: responseWriter
  effTraffic :: ledger
  effSent :: "request list"

fun addValues :: "string \<Rightarrow> string list \<Rightarrow> responseWriter \<Rightarrow> responseWriter" where
  "addValues k [] rw = rw"
| "addValues k (v # vs) rw = addValues k vs (headerAdd k v rw)"

fun copyHeader :: "(string \<times> string list) list \<Rightarrow> responseWriter \<Rightarrow> responseWriter" where
  "copyHeader [] rw = rw"
| "copyHeader ((k, vals) # rest) rw = copyHeader rest (addValues k vals rw)"

text \<open>
  \<open>resp.Header\<close> as the HTTP client builds it from the wire: every key once, in
  canonical form, with at least one value.
\<close>

definition wireHeader :: "(string \<times> string list) list \<Rightarrow> bool" where
  "wireHeader hs =
     (distinct (map fst hs) \<and>
      list_all (\<lambda>(k, vals). canonicalMIMEHeaderKey k = k \<and> vals \<noteq> []) hs)"

definition forwardRequest :: "globals \<Rightarrow> string \<Rightarrow> request \<Rightarrow> request" where
  "forwardRequest g dst r =
     r\<lparr>reqCtx := withTimeout (reqCtx r) (timeout g), requestURI := '''',
       urlHost := dst, urlScheme := scheme g, reqHost := dst\<rparr>"

definition forward ::
  "globals \<Rightarrow> (request \<Rightarrow> doResult) \<Rightarrow> time \<Rightarrow> string \<Rightarrow> responseWriter \<Rightarrow> request
     \<Rightarrow> error option \<times> effects" where
  "forward g client now dst rw r =
     (let fwdRequest = forwardRequest g dst r
      in case client fwdRequest of
           DoResp resp \<Rightarrow>
             (case respBody resp of
                ReadErr err \<Rightarrow>
                  (Some err,
                   \<lparr>effRw = writeHeader StatusInternalServerError rw,
                    effTraffic = traffic g, effSent = [fwdRequest]\<rparr>)
              | ReadOk bodyBytes \<Rightarrow>
                  (let m = incrementTraffic now dst (of_nat (length bodyBytes)) (traffic g);
                       rw1 = copyHeader (respHeader resp) rw;
                       rw2 = (if traceEnabled g then headerSet ''lb-from'' dst rw1 else rw1);
                       rw3 = writeHeader (statusCode resp) rw2;
                       rw4 = writeBytes bodyBytes rw3
                   in (None, \<lparr>effRw = rw4, effTraffic = m, effSent = [fwdRequest]\<rparr>)))
         | DoErr err \<Rightarrow>
             (Some err,
              \<lparr>effRw = writeHeader StatusServiceUnavailable rw,
               effTraffic = traffic g, effSent = [fwdRequest]\<rparr>))"

section \<open>The dispatcher\<close>

text \<open>\<open>int(^uint(0) >> 1)\<close>\<close>

definition maxInt :: go_int where
  "maxInt = drop_bit 1 (NOT 0)"

text \<open>
  The entries of \<open>traffic\<close> as one \<open>range\<close> statement yields them; Go leaves the order
  open, so it is an argument.
\<close>

definition rangeTraffic :: "ledger \<Rightarrow> string list \<Rightarrow> (string \<times> sizeTimestamp list) list" where
  "rangeTraffic m order = map (\<lambda>k. (k, queueOf m k)) order"

definition traversal :: "ledger \<Rightarrow> string list \<Rightarrow> bool" where
  "traversal m order = (distinct order \<and> set order = dom m)"

fun selectLoop ::
  "(string \<times> sizeTimestamp list) list \<Rightarrow> go_int \<times> string \<Rightarrow> go_int \<times> string" where
  "selectLoop [] acc = acc"
| "selectLoop ((server, serverQueue) # rest) (minTraffic, minTrafficServer) =
     (if serverTraffic serverQueue <s minTraffic
      then selectLoop rest (serverTraffic serverQueue, server)
      else selectLoop rest (minTraffic, minTrafficServer))"

definition selectServer :: "ledger \<Rightarrow> string list \<Rightarrow> string" where
  "selectServer m order = snd (selectLoop (rangeTraffic m order) (maxInt, ''''))"

definition handler ::
  "globals \<Rightarrow> string list \<Rightarrow> (request \<Rightarrow> doResult) \<Rightarrow> time \<Rightarrow> responseWriter \<Rightarrow> request
     \<Rightarrow> effects" where
  "handler g order client now rw r =
     (let minTrafficServer = selectServer (traffic g) order
      in if minTrafficServer = ''''
         then \<lparr>effRw = writeHeader StatusServiceUnavailable rw,
               effTraffic = traffic g, effSent = []\<rparr>
         else snd (forward g client now minTrafficServer rw r))"

section \<open>Runs of the balancer\<close>

text \<open>
  The states of the package-level variables that a run reaches in a single-threaded
  schedule: \<open>main\<close> initialises them, then dispatches and sweeper ticks follow in
  any order. Each \<open>range\<close> statement visits every key of the ledger once.
\<close>

inductive reachable :: "cmdline \<Rightarrow> string list \<Rightarrow> globals \<Rightarrow> bool" for cl pool where
  start: "reachable cl pool (mainInit cl pool)"
| dispatch: "reachable cl pool g \<Longrightarrow> traversal (traffic g) order \<Longrightarrow>
     reachable cl pool (g\<lparr>traffic := effTraffic (handler g order client now rw r)\<rparr>)"
| sweep: "reachable cl pool g \<Longrightarrow> traversal (traffic g) (map fst tr) \<Longrightarrow>
     reachable cl pool (g\<lparr>traffic := reduceTraffic tr (traffic g)\<rparr>)"

section \<open>Example inputs\<close>

text \<open>
  A ledger for the default pool: server1 carries 120 bytes, server2 and server3 carry
  40 bytes each.
\<close>

definition exLedger :: ledger where
  "exLedger = [''server1:8080'' \<mapsto> [\<lparr>size' = 100, timestamp = 7\<rparr>, \<lparr>size' = 20, timestamp = 9\<rparr>],
               ''server2:8080'' \<mapsto> [\<lparr>size' = 40, timestamp = 8\<rparr>],
               ''server3:8080'' \<mapsto> [\<lparr>size' = 15, timestamp = 3\<rparr>, \<lparr>size' = 25, timestamp = 8\<rparr>]]"

text \<open>A start with no flag given, and the state it leads to once traffic has come in.\<close>

definition noFlags :: cmdline where
  "noFlags = \<lparr>portArg = None, timeoutSecArg = None, httpsArg = None, traceArg = None\<rparr>"

definition exGlobals :: globals where
  "exGlobals = (mainInit noFlags defaultPool)\<lparr>traffic := exLedger\<rparr>"

text \<open>An inbound call: the response writer as the server hands it over, and the request.\<close>

definition freshWriter :: responseWriter where
  "freshWriter = \<lparr>rwHeader = Map.empty, rwStatus = None, rwBody = []\<rparr>"

definition exRequest :: request where
  "exRequest = \<lparr>reqMethod = ''GET'', urlScheme = '''', urlHost = '''',
     urlPath = ''/api/v1/some-data'', reqHost = ''balancer:8090'',
     requestURI = ''/api/v1/some-data'', reqBody = [], reqCtx = None\<rparr>"

text \<open>
  Three answers of the network: a response with a two-byte body, a refused connection,
  and a response whose body breaks off while it is read.
\<close>

definition exResponse :: response where
  "exResponse = \<lparr>statusCode = 200,
     respHeader = [(''Content-Type'', [''text/plain'']), (''Data-Size'', [''2''])],
     respBody = ReadOk [104, 105]\<rparr>"

definition clientOk :: "request \<Rightarrow> doResult" where
  "clientOk req = DoResp exResponse"

definition clientDown :: "request \<Rightarrow> doResult" where
  "clientDown req = DoErr ConnectionRefused"

definition clientTruncated :: "request \<Rightarrow> doResult" where
  "clientTruncated req = DoResp (exResponse\<lparr>respBody := ReadErr UnexpectedEOF\<rparr>)"

text \<open>A sweeper tick whose cutoffs are the instants 7, 7 and 8.\<close>

definition exSweep :: "(string \<times> time) list" where
  "exSweep = [(''server1:8080'', 5000000007), (''server2:8080'', 5000000007),
              (''server3:8080'', 5000000008)]"

text \<open>A backend that answers with status 204.\<close>

definition noContent :: response where
  "noContent = \<lparr>statusCode = 204, respHeader = [], respBody = ReadOk []\<rparr>"

definition clientNoContent :: "request \<Rightarrow> doResult" where
  "clientNoContent req = DoResp noContent"

text \<open>Starts with \<open>-timeout-sec=10\<close> and with \<open>-trace\<close>.\<close>

definition slowFlags :: cmdline where
  "slowFlags = noFlags\<lparr>timeoutSecArg := Some 10\<rparr>"

definition traceFlags :: cmdline where
  "traceFlags = noFlags\<lparr>traceArg := Some True\<rparr>"

definition traceGlobals :: globals where
  "traceGlobals = (mainInit traceFlags defaultPool)\<lparr>traffic := exLedger\<rparr>"

text \<open>A backend that sends a header under the name of the trace header.\<close>

definition relabelled :: response where
  "relabelled = \<lparr>statusCode = 200,
     respHeader = [(''Content-Type'', [''text/plain'']), (''Lb-From'', [''server9:8080''])],
     respBody = ReadOk [104, 105]\<rparr>"

definition clientRelabelled :: "request \<Rightarrow> doResult" where
  "clientRelabelled req = DoResp relabelled"

section \<open>Summed load\<close>

lemma sumLoop_append: "sumLoop (q @ r) a = sumLoop r (sumLoop q a)"
  by (induction q arbitrary: a) simp_all

lemma serverTraffic_snoc: "serverTraffic (q @ [st]) = serverTraffic q + size' st"
  by (simp add: serverTraffic_def sumLoop_append)

text \<open>
  The loop adds in 64 bits. For sizes that are not negative (they are lengths of response
  bodies) and add up to less than \<open>2 ^ 63\<close>, nothing wraps and the loop's result is the
  exact sum.
\<close>

lemma serverTraffic_exact:
  "list_all (\<lambda>st. 0 \<le> sint (size' st)) q \<Longrightarrow>
   (\<Sum>st\<leftarrow>q. sint (size' st)) < 2 ^ 63 \<Longrightarrow>
   sint (serverTraffic q) = (\<Sum>st\<leftarrow>q. sint (size' st))"
proof (induction q rule: rev_induct)
  case Nil
  show ?case by (simp add: serverTraffic_def)
next
  case (snoc st q)
  let ?s = "\<Sum>st\<leftarrow>q. sint (size' st)"
  from snoc.prems have nn: "0 \<le> sint (size' st)" and all: "list_all (\<lambda>st. 0 \<le> sint (size' st)) q"
    and bound: "?s + sint (size' st) < 2 ^ 63"
    by simp_all
  from all have pos: "0 \<le> ?s" by (induction q) simp_all
  with nn bound have "?s < 2 ^ 63" by simp
  from snoc.IH [OF all this] have ih: "sint (serverTraffic q) = ?s" .
  have "sint (serverTraffic (q @ [st])) =
      signed_take_bit (LENGTH(64) - 1) (sint (serverTraffic q) + sint (size' st))"
    by (simp add: serverTraffic_snoc sint_word_ariths)
  also have "\<dots> = ?s + sint (size' st)"
    using pos nn bound ih by (simp add: signed_take_bit_int_eq_self)
  finally show ?case by simp
qed

section \<open>Least-load selection\<close>

lemma sint_maxInt: "sint maxInt = 9223372036854775807"
  by code_simp

lemma not_sless_maxInt: "\<not> x <s maxInt \<Longrightarrow> x = maxInt"
proof -
  assume a: "\<not> x <s maxInt"
  have "sint x < 2 ^ (LENGTH(64) - 1)" by (rule sint_lt)
  then have "sint x \<le> sint maxInt" by (simp add: sint_maxInt)
  with a have "sint x = sint maxInt" by (simp add: word_sless_alt)
  then show ?thesis by (rule signed_word_eqI)
qed

lemma selectLoop_cases:
  "selectLoop xs (mt, ms) = (mt', ms') \<Longrightarrow>
     (mt' = mt \<and> ms' = ms \<and> (\<forall>(k, q) \<in> set xs. \<not> serverTraffic q <s mt)) \<or>
     (\<exists>pre q post. xs = pre @ (ms', q) # post \<and> mt' = serverTraffic q \<and> mt' <s mt \<and>
        (\<forall>(k, q') \<in> set pre. mt' <s serverTraffic q') \<and>
        (\<forall>(k, q') \<in> set post. mt' \<le>s serverTraffic q'))"
proof (induction xs arbitrary: mt ms)
  case Nil
  then show ?case by simp
next
  case (Cons x xs)
  obtain k q where x: "x = (k, q)" by (cases x)
  show ?case
  proof (cases "serverTraffic q <s mt")
    case True
    with Cons.prems x have run: "selectLoop xs (serverTraffic q, k) = (mt', ms')" by simp
    from Cons.IH [OF run] show ?thesis
    proof (elim disjE exE conjE)
      assume e: "mt' = serverTraffic q" "ms' = k"
        and rest: "\<forall>(k, q') \<in> set xs. \<not> serverTraffic q' <s serverTraffic q"
      have "x # xs = [] @ (ms', q) # xs" using x e by simp
      moreover have "\<forall>(k, q') \<in> set xs. mt' \<le>s serverTraffic q'"
        using rest e by (auto simp: word_sle_eq word_sless_alt)
      moreover have "\<forall>(k, q') \<in> set []. mt' <s serverTraffic q'" by simp
      ultimately show ?thesis using e True by blast
    next
      fix pre q2 post
      assume xs: "xs = pre @ (ms', q2) # post" and m: "mt' = serverTraffic q2"
        and lt: "mt' <s serverTraffic q"
        and pre: "\<forall>(k, q') \<in> set pre. mt' <s serverTraffic q'"
        and post: "\<forall>(k, q') \<in> set post. mt' \<le>s serverTraffic q'"
      have "x # xs = (x # pre) @ (ms', q2) # post" using xs by simp
      moreover have "mt' <s mt" using lt True by (simp add: word_sless_alt)
      moreover have "\<forall>(k, q') \<in> set (x # pre). mt' <s serverTraffic q'"
        using pre lt x by simp
      ultimately show ?thesis using m post by blast
    qed
  next
    case False
    with Cons.prems x have run: "selectLoop xs (mt, ms) = (mt', ms')" by simp
    from Cons.IH [OF run] show ?thesis
    proof (elim disjE exE conjE)
      assume e: "mt' = mt" "ms' = ms"
        and rest: "\<forall>(k, q') \<in> set xs. \<not> serverTraffic q' <s mt"
      then show ?thesis using False x by simp
    next
      fix pre q2 post
      assume xs: "xs = pre @ (ms', q2) # post" and m: "mt' = serverTraffic q2"
        and lt: "mt' <s mt"
        and pre: "\<forall>(k, q') \<in> set pre. mt' <s serverTraffic q'"
        and post: "\<forall>(k, q') \<in> set post. mt' \<le>s serverTraffic q'"
      have "x # xs = (x # pre) @ (ms', q2) # post" using xs by simp
      moreover have "mt' <s serverTraffic q" using lt False by (simp add: word_sless_alt)
      then have "\<forall>(k, q') \<in> set (x # pre). mt' <s serverTraffic q'"
        using pre x by simp
      ultimately show ?thesis using m lt post by blast
    qed
  qed
qed

lemma selectServer_cases:
  "(selectServer m order = '''' \<and> (\<forall>k \<in> set order. serverTraffic (queueOf m k) = maxInt)) \<or>
   (\<exists>pre post. order = pre @ selectServer m order # post \<and>
      serverTraffic (queueOf m (selectServer m order)) <s maxInt \<and>
      (\<forall>k \<in> set pre. serverTraffic (queueOf m (selectServer m order)) <s serverTraffic (queueOf m k)) \<and>
      (\<forall>k \<in> set post. serverTraffic (queueOf m (selectServer m order)) \<le>s serverTraffic (queueOf m k)))"
proof -
  obtain mt' ms' where run: "selectLoop (rangeTraffic m order) (maxInt, '''') = (mt', ms')"
    by (cases "selectLoop (rangeTraffic m order) (maxInt, '''')")
  then have s: "selectServer m order = ms'" by (simp add: selectServer_def)
  from selectLoop_cases [OF run] show ?thesis
  proof (elim disjE exE conjE)
    assume "ms' = ''''"
      and all: "\<forall>(k, q) \<in> set (rangeTraffic m order). \<not> serverTraffic q <s maxInt"
    moreover have "\<forall>k \<in> set order. serverTraffic (queueOf m k) = maxInt"
    proof
      fix k assume "k \<in> set order"
      then have "(k, queueOf m k) \<in> set (rangeTraffic m order)"
        by (simp add: rangeTraffic_def)
      with all have "\<not> serverTraffic (queueOf m k) <s maxInt" by blast
      then show "serverTraffic (queueOf m k) = maxInt" by (rule not_sless_maxInt)
    qed
    ultimately show ?thesis using s by simp
  next
    fix pre q post
    assume split: "rangeTraffic m order = pre @ (ms', q) # post"
      and mt: "mt' = serverTraffic q" and lt: "mt' <s maxInt"
      and before: "\<forall>(k, q') \<in> set pre. mt' <s serverTraffic q'"
      and after: "\<forall>(k, q') \<in> set post. mt' \<le>s serverTraffic q'"
    from split obtain ks1 ks2 where o: "order = ks1 @ ms' # ks2"
      and p1: "pre = rangeTraffic m ks1" and q: "q = queueOf m ms'"
      and p2: "post = rangeTraffic m ks2"
      by (auto simp: rangeTraffic_def map_eq_append_conv map_eq_Cons_conv)
    have "\<forall>k \<in> set ks1. mt' <s serverTraffic (queueOf m k)"
      using before p1 by (auto simp: rangeTraffic_def)
    moreover have "\<forall>k \<in> set ks2. mt' \<le>s serverTraffic (queueOf m k)"
      using after p2 by (auto simp: rangeTraffic_def)
    ultimately have "order = ks1 @ ms' # ks2 \<and>
        serverTraffic (queueOf m ms') <s maxInt \<and>
        (\<forall>k \<in> set ks1. serverTraffic (queueOf m ms') <s serverTraffic (queueOf m k)) \<and>
        (\<forall>k \<in> set ks2. serverTraffic (queueOf m ms') \<le>s serverTraffic (queueOf m k))"
      using o q mt lt by simp
    then show ?thesis unfolding s by (intro disjI2 exI)
  qed
qed

text \<open>
  C1. Whenever the dispatcher's loop selects a backend \<open>s\<close> from a ledger snapshot,
  \<open>s\<close> is a key of the ledger, its summed size (as the loop computes it) is at most
  the summed size of every pooled backend, and every backend the traversal visited
  before \<open>s\<close> carries strictly more: among the backends of least load the one met
  first is chosen.
\<close>

theorem select_least_load:
  assumes "traversal m order" and "selectServer m order = s" and "s \<noteq> ''''"
  shows "s \<in> dom m \<and>
         (\<forall>k \<in> dom m. serverTraffic (queueOf m s) \<le>s serverTraffic (queueOf m k)) \<and>
         (\<exists>pre post. order = pre @ s # post \<and>
            (\<forall>k \<in> set pre. serverTraffic (queueOf m s) <s serverTraffic (queueOf m k)))"
proof -
  from selectServer_cases [of m order] assms(2,3)
  obtain pre post where o: "order = pre @ s # post"
    and before: "\<forall>k \<in> set pre. serverTraffic (queueOf m s) <s serverTraffic (queueOf m k)"
    and after: "\<forall>k \<in> set post. serverTraffic (queueOf m s) \<le>s serverTraffic (queueOf m k)"
    by auto
  from assms(1) have d: "set order = dom m" by (simp add: traversal_def)
  have "s \<in> dom m" using o d by auto
  moreover have "\<forall>k \<in> dom m. serverTraffic (queueOf m s) \<le>s serverTraffic (queueOf m k)"
  proof
    fix k assume "k \<in> dom m"
    then have "k \<in> set pre \<or> k = s \<or> k \<in> set post" using o d by auto
    then show "serverTraffic (queueOf m s) \<le>s serverTraffic (queueOf m k)"
      using before after by (auto simp: word_sle_eq word_sless_alt)
  qed
  ultimately show ?thesis using o before by blast
qed

theorem select_least_load_witness:
  "traversal exLedger defaultPool \<and>
   selectServer exLedger defaultPool = ''server2:8080'' \<and>
   ''server2:8080'' \<in> dom exLedger \<and>
   serverTraffic (queueOf exLedger ''server2:8080'')
     \<le>s serverTraffic (queueOf exLedger ''server3:8080'') \<and>
   serverTraffic (queueOf exLedger ''server2:8080'')
     <s serverTraffic (queueOf exLedger ''server1:8080'')"
proof -
  have t: "traversal exLedger defaultPool"
    by (auto simp: traversal_def exLedger_def defaultPool_def)
  have s: "selectServer exLedger defaultPool = ''server2:8080''"
    by (simp add: selectServer_def exLedger_def defaultPool_def rangeTraffic_def queueOf_def
        serverTraffic_def sint_maxInt word_sless_alt)
  have n: "''server2:8080'' \<noteq> ''''" by simp
  note r = select_least_load [OF t s n]
  from r have a: "''server2:8080'' \<in> dom exLedger" by (rule conjunct1)
  from r have b: "\<forall>k \<in> dom exLedger.
      serverTraffic (queueOf exLedger ''server2:8080'') \<le>s serverTraffic (queueOf exLedger k)"
    by blast
  have "''server3:8080'' \<in> dom exLedger" by (simp add: exLedger_def)
  with b have le: "serverTraffic (queueOf exLedger ''server2:8080'')
      \<le>s serverTraffic (queueOf exLedger ''server3:8080'')" by blast
  from r obtain pre post where o: "defaultPool = pre @ ''server2:8080'' # post"
    and c: "\<forall>k \<in> set pre.
      serverTraffic (queueOf exLedger ''server2:8080'') <s serverTraffic (queueOf exLedger k)"
    by blast
  from o have "pre = [''server1:8080'']"
    by (auto simp: defaultPool_def Cons_eq_append_conv)
  with c have lt: "serverTraffic (queueOf exLedger ''server2:8080'')
      <s serverTraffic (queueOf exLedger ''server1:8080'')" by simp
  from t s a le lt show ?thesis by simp
qed

section \<open>The sweeper\<close>

lemma pruneLoop_filter:
  "pruneLoop cutoff queue newQueue = newQueue @ filter (\<lambda>st. cutoff < timestamp st) queue"
  by (induction queue arbitrary: newQueue) simp_all

lemma reduceTraffic_other: "server \<notin> fst ` set tr \<Longrightarrow> reduceTraffic tr m server = m server"
  by (induction tr arbitrary: m) (auto simp: Let_def)

lemma reduceTraffic_dom: "dom (reduceTraffic tr m) = dom m \<union> fst ` set tr"
proof (induction tr arbitrary: m)
  case Nil
  show ?case by simp
next
  case (Cons x tr)
  obtain s n where x: "x = (s, n)" by (cases x)
  let ?m = "m(s \<mapsto> pruneLoop (n + (- 5 * second)) (queueOf m s) [])"
  have "dom (reduceTraffic (x # tr) m) = dom (reduceTraffic tr ?m)" using x by (simp add: Let_def)
  also have "\<dots> = dom ?m \<union> fst ` set tr" by (rule Cons.IH)
  also have "dom ?m = insert s (dom m)" by simp
  finally show ?case using x by simp
qed

lemma reduceTraffic_queue:
  "distinct (map fst tr) \<Longrightarrow> (server, now) \<in> set tr \<Longrightarrow>
   reduceTraffic tr m server =
     Some (filter (\<lambda>st. now - 5 * second < timestamp st) (queueOf m server))"
proof (induction tr arbitrary: m)
  case Nil
  then show ?case by simp
next
  case (Cons x tr)
  obtain s n where x: "x = (s, n)" by (cases x)
  let ?m = "m(s \<mapsto> pruneLoop (n + (- 5 * second)) (queueOf m s) [])"
  have step: "reduceTraffic (x # tr) m = reduceTraffic tr ?m" using x by (simp add: Let_def)
  show ?case
  proof (cases "(server, now) = x")
    case True
    with x Cons.prems(1) have "server \<notin> fst ` set tr" by auto
    then have "reduceTraffic tr ?m server = ?m server" by (rule reduceTraffic_other)
    with True x step show ?thesis by (simp add: pruneLoop_filter)
  next
    case False
    with Cons.prems have mem: "(server, now) \<in> set tr" by simp
    then have "server \<in> fst ` set tr" by force
    with Cons.prems(1) x have ne: "server \<noteq> s" by auto
    from Cons.prems(1) have "distinct (map fst tr)" by simp
    from Cons.IH [OF this mem, of ?m]
    have "reduceTraffic tr ?m server =
        Some (filter (\<lambda>st. now - 5 * second < timestamp st) (queueOf ?m server))" .
    moreover have "queueOf ?m server = queueOf m server" using ne by (simp add: queueOf_def)
    ultimately show ?thesis using step by simp
  qed
qed

text \<open>
  C2. One tick of the sweeper, run over a traversal of the ledger: for every backend,
  with \<open>now\<close> the clock reading taken in that backend's iteration, the new queue is
  the old one without the samples whose timestamp is at most \<open>now\<close> minus 5 seconds,
  in the old order; every retained sample is younger than that; no key appears or
  disappears.
\<close>

theorem prune_pass:
  assumes "traversal m (map fst tr)" and "(server, now) \<in> set tr"
  shows "queueOf (reduceTraffic tr m) server =
           filter (\<lambda>st. \<not> timestamp st \<le> now - 5 * second) (queueOf m server) \<and>
         (\<forall>st \<in> set (queueOf (reduceTraffic tr m) server). timestamp st > now - 5 * second) \<and>
         dom (reduceTraffic tr m) = dom m"
proof -
  from assms(1) have d: "distinct (map fst tr)" and k: "fst ` set tr = dom m"
    by (simp_all add: traversal_def)
  from reduceTraffic_queue [OF d assms(2), of m]
  have q: "queueOf (reduceTraffic tr m) server =
      filter (\<lambda>st. now - 5 * second < timestamp st) (queueOf m server)"
    by (simp add: queueOf_def)
  then have "\<forall>st \<in> set (queueOf (reduceTraffic tr m) server). timestamp st > now - 5 * second"
    by simp
  moreover have "dom (reduceTraffic tr m) = dom m" using k by (simp add: reduceTraffic_dom)
  ultimately show ?thesis using q by (simp add: not_le)
qed

theorem prune_pass_witness:
  "traversal exLedger (map fst exSweep) \<and>
   queueOf exLedger ''server1:8080'' =
     [\<lparr>size' = 100, timestamp = 7\<rparr>, \<lparr>size' = 20, timestamp = 9\<rparr>] \<and>
   queueOf (reduceTraffic exSweep exLedger) ''server1:8080'' = [\<lparr>size' = 20, timestamp = 9\<rparr>] \<and>
   dom (reduceTraffic exSweep exLedger) = dom exLedger"
proof -
  have t: "traversal exLedger (map fst exSweep)"
    by (auto simp: traversal_def exLedger_def exSweep_def)
  have e: "(''server1:8080'', 5000000007) \<in> set exSweep" by (simp add: exSweep_def)
  have q: "queueOf exLedger ''server1:8080'' =
      [\<lparr>size' = 100, timestamp = 7\<rparr>, \<lparr>size' = 20, timestamp = 9\<rparr>]"
    by (simp add: queueOf_def exLedger_def)
  from prune_pass [OF t e] t q show ?thesis by (simp add: second_def)
qed

section \<open>Forwarding: traffic accounting and failures\<close>

text \<open>
  C3. When the backend call succeeds and its body of \<open>S\<close> bytes is read, the chosen
  backend's queue gains one sample of size \<open>S\<close> at its end, so its summed load grows
  by exactly \<open>S\<close> (in Go's 64-bit arithmetic), and the entry of every other backend is
  the same as before.
\<close>

theorem forward_records_size:
  assumes "client (forwardRequest g dst r) = DoResp resp"
    and "respBody resp = ReadOk bodyBytes"
  shows "queueOf (effTraffic (snd (forward g client now dst rw r))) dst =
           queueOf (traffic g) dst @ [\<lparr>size' = of_nat (length bodyBytes), timestamp = now\<rparr>] \<and>
         serverTraffic (queueOf (effTraffic (snd (forward g client now dst rw r))) dst) =
           serverTraffic (queueOf (traffic g) dst) + of_nat (length bodyBytes) \<and>
         (\<forall>k. k \<noteq> dst \<longrightarrow>
            effTraffic (snd (forward g client now dst rw r)) k = traffic g k)"
proof -
  have t: "effTraffic (snd (forward g client now dst rw r)) =
      incrementTraffic now dst (of_nat (length bodyBytes)) (traffic g)"
    using assms by (simp add: forward_def Let_def)
  have q: "queueOf (incrementTraffic now dst (of_nat (length bodyBytes)) (traffic g)) dst =
      queueOf (traffic g) dst @ [\<lparr>size' = of_nat (length bodyBytes), timestamp = now\<rparr>]"
    by (simp add: incrementTraffic_def queueOf_def)
  show ?thesis unfolding t q
    by (simp add: serverTraffic_snoc) (simp add: incrementTraffic_def)
qed

theorem forward_records_size_witness:
  "clientOk (forwardRequest exGlobals ''server2:8080'' exRequest) = DoResp exResponse \<and>
   respBody exResponse = ReadOk [104, 105] \<and>
   serverTraffic (queueOf (traffic exGlobals) ''server2:8080'') = 40 \<and>
   serverTraffic (queueOf (effTraffic (snd
      (forward exGlobals clientOk 12 ''server2:8080'' freshWriter exRequest))) ''server2:8080'') = 42 \<and>
   effTraffic (snd (forward exGlobals clientOk 12 ''server2:8080'' freshWriter exRequest))
      ''server1:8080'' = traffic exGlobals ''server1:8080''"
proof -
  have c: "clientOk (forwardRequest exGlobals ''server2:8080'' exRequest) = DoResp exResponse"
    by (simp add: clientOk_def)
  have b: "respBody exResponse = ReadOk [104, 105]" by (simp add: exResponse_def)
  have l: "serverTraffic (queueOf (traffic exGlobals) ''server2:8080'') = 40"
    by (simp add: exGlobals_def exLedger_def queueOf_def serverTraffic_def)
  note r = forward_records_size [where client = clientOk and g = exGlobals
      and dst = "''server2:8080''" and r = exRequest and now = 12 and rw = freshWriter, OF c b]
  from r have "serverTraffic (queueOf (effTraffic (snd
      (forward exGlobals clientOk 12 ''server2:8080'' freshWriter exRequest))) ''server2:8080'') =
      serverTraffic (queueOf (traffic exGlobals) ''server2:8080'') + of_nat (length [104, 105 :: byte])"
    by blast
  then have s: "serverTraffic (queueOf (effTraffic (snd
      (forward exGlobals clientOk 12 ''server2:8080'' freshWriter exRequest))) ''server2:8080'') = 42"
    using l by simp
  from r have "effTraffic (snd (forward exGlobals clientOk 12 ''server2:8080'' freshWriter exRequest))
      ''server1:8080'' = traffic exGlobals ''server1:8080''"
    by simp
  with c b l s show ?thesis by simp
qed

text \<open>
  C4. When the backend call fails at the transport layer, \<open>forward\<close> writes status
  503 to a caller that has no status yet, writes neither header nor body, leaves the
  whole ledger as it was, and returns the error.
\<close>

theorem forward_transport_failure:
  assumes "client (forwardRequest g dst r) = DoErr err" and "rwStatus rw = None"
  shows "fst (forward g client now dst rw r) = Some err \<and>
         rwStatus (effRw (snd (forward g client now dst rw r))) = Some StatusServiceUnavailable \<and>
         rwBody (effRw (snd (forward g client now dst rw r))) = rwBody rw \<and>
         rwHeader (effRw (snd (forward g client now dst rw r))) = rwHeader rw \<and>
         effTraffic (snd (forward g client now dst rw r)) = traffic g"
  using assms by (simp add: forward_def writeHeader_def)

theorem forward_transport_failure_witness:
  "clientDown (forwardRequest exGlobals ''server2:8080'' exRequest) = DoErr ConnectionRefused \<and>
   rwStatus freshWriter = None \<and>
   fst (forward exGlobals clientDown 12 ''server2:8080'' freshWriter exRequest)
     = Some ConnectionRefused \<and>
   rwStatus (effRw (snd (forward exGlobals clientDown 12 ''server2:8080'' freshWriter exRequest)))
     = Some 503 \<and>
   effTraffic (snd (forward exGlobals clientDown 12 ''server2:8080'' freshWriter exRequest))
     = exLedger"
proof -
  have c: "clientDown (forwardRequest exGlobals ''server2:8080'' exRequest) = DoErr ConnectionRefused"
    by (simp add: clientDown_def)
  have f: "rwStatus freshWriter = None" by (simp add: freshWriter_def)
  from forward_transport_failure [where client = clientDown and g = exGlobals
      and dst = "''server2:8080''" and r = exRequest and now = 12, OF c f] c f show ?thesis
    by (simp add: StatusServiceUnavailable_def exGlobals_def)
qed

text \<open>
  C7. When the backend call succeeds but reading the body fails, \<open>forward\<close> writes
  status 500 to a caller that has no status yet, writes no body byte, leaves the whole
  ledger as it was, and returns the error.
\<close>

theorem forward_read_failure:
  assumes "client (forwardRequest g dst r) = DoResp resp"
    and "respBody resp = ReadErr err" and "rwStatus rw = None"
  shows "fst (forward g client now dst rw r) = Some err \<and>
         rwStatus (effRw (snd (forward g client now dst rw r))) = Some StatusInternalServerError \<and>
         rwBody (effRw (snd (forward g client now dst rw r))) = rwBody rw \<and>
         effTraffic (snd (forward g client now dst rw r)) = traffic g"
  using assms by (simp add: forward_def writeHeader_def)

theorem forward_read_failure_witness:
  "clientTruncated (forwardRequest exGlobals ''server2:8080'' exRequest)
     = DoResp (exResponse\<lparr>respBody := ReadErr UnexpectedEOF\<rparr>) \<and>
   rwStatus freshWriter = None \<and>
   fst (forward exGlobals clientTruncated 12 ''server2:8080'' freshWriter exRequest)
     = Some UnexpectedEOF \<and>
   rwStatus (effRw (snd (forward exGlobals clientTruncated 12 ''server2:8080'' freshWriter exRequest)))
     = Some 500 \<and>
   rwBody (effRw (snd (forward exGlobals clientTruncated 12 ''server2:8080'' freshWriter exRequest)))
     = [] \<and>
   effTraffic (snd (forward exGlobals clientTruncated 12 ''server2:8080'' freshWriter exRequest))
     = exLedger"
proof -
  have c: "clientTruncated (forwardRequest exGlobals ''server2:8080'' exRequest)
      = DoResp (exResponse\<lparr>respBody := ReadErr UnexpectedEOF\<rparr>)"
    by (simp add: clientTruncated_def)
  have b: "respBody (exResponse\<lparr>respBody := ReadErr UnexpectedEOF\<rparr>) = ReadErr UnexpectedEOF"
    by simp
  have f: "rwStatus freshWriter = None" by (simp add: freshWriter_def)
  from forward_read_failure [where client = clientTruncated and g = exGlobals
      and dst = "''server2:8080''" and r = exRequest and now = 12, OF c b f] c f show ?thesis
    by (simp add: StatusInternalServerError_def exGlobals_def freshWriter_def)
qed

section \<open>The empty pool\<close>

lemma handler_empty:
  assumes "traffic g = Map.empty" and "traversal (traffic g) order"
  shows "handler g order client now rw r =
     \<lparr>effRw = writeHeader StatusServiceUnavailable rw, effTraffic = Map.empty, effSent = []\<rparr>"
proof -
  from assms have "order = []" by (simp add: traversal_def)
  then have "selectServer (traffic g) order = ''''"
    by (simp add: selectServer_def rangeTraffic_def)
  then show ?thesis using assms(1) by (simp add: handler_def)
qed

lemma reachable_empty_pool: "reachable cl [] g \<Longrightarrow> traffic g = Map.empty"
proof (induction rule: reachable.induct)
  case start
  show ?case by (simp add: mainInit_def flagParse_def packageInit_def)
next
  case (dispatch g order client now rw r)
  then show ?case by (simp add: handler_empty)
next
  case (sweep g tr)
  then have "tr = []" by (simp add: traversal_def)
  with sweep show ?case by simp
qed

text \<open>
  C8. With an empty pool, in every state a run reaches, a dispatch makes no outbound
  call, answers status 503 with no body, and leaves the ledger empty. The handler is a
  total function: no input makes it fail.
\<close>

theorem empty_pool_unavailable:
  assumes "reachable cl [] g" and "traversal (traffic g) order" and "rwStatus rw = None"
  shows "effSent (handler g order client now rw r) = [] \<and>
         rwStatus (effRw (handler g order client now rw r)) = Some StatusServiceUnavailable \<and>
         rwBody (effRw (handler g order client now rw r)) = rwBody rw \<and>
         effTraffic (handler g order client now rw r) = Map.empty"
proof -
  from assms(1) have "traffic g = Map.empty" by (rule reachable_empty_pool)
  from handler_empty [OF this assms(2)] assms(3) show ?thesis
    by (simp add: writeHeader_def)
qed

theorem empty_pool_unavailable_witness:
  "reachable noFlags [] (mainInit noFlags []) \<and>
   traversal (traffic (mainInit noFlags [])) [] \<and>
   rwStatus freshWriter = None \<and>
   effSent (handler (mainInit noFlags []) [] clientOk 12 freshWriter exRequest) = [] \<and>
   rwStatus (effRw (handler (mainInit noFlags []) [] clientOk 12 freshWriter exRequest)) = Some 503"
proof -
  have a: "reachable noFlags [] (mainInit noFlags [])" by (rule reachable.start)
  have t: "traversal (traffic (mainInit noFlags [])) []"
    by (simp add: traversal_def mainInit_def flagParse_def packageInit_def)
  have f: "rwStatus freshWriter = None" by (simp add: freshWriter_def)
  from empty_pool_unavailable [OF a t f, of clientOk 12 exRequest] a t f show ?thesis
    by (simp add: StatusServiceUnavailable_def)
qed

section \<open>When no server is available\<close>

lemma forward_sends: "effSent (snd (forward g client now dst rw r)) = [forwardRequest g dst r]"
  by (simp add: forward_def Let_def split: doResult.split readResult.split)

lemma handler_sent:
  "(effSent (handler g order client now rw r) = []) = (selectServer (traffic g) order = '''')"
  by (simp add: handler_def Let_def forward_sends)

lemma selectServer_none_iff:
  assumes "'''' \<notin> set order"
  shows "(selectServer m order = '''') =
         (\<forall>k \<in> set order. serverTraffic (queueOf m k) = maxInt)"
proof
  assume e: "selectServer m order = ''''"
  from selectServer_cases [of m order] show "\<forall>k \<in> set order. serverTraffic (queueOf m k) = maxInt"
  proof (elim disjE exE conjE)
    fix pre post assume "order = pre @ selectServer m order # post"
    then have "selectServer m order \<in> set order" by (metis in_set_conv_decomp)
    with e assms show ?thesis by simp
  qed
next
  assume a: "\<forall>k \<in> set order. serverTraffic (queueOf m k) = maxInt"
  from selectServer_cases [of m order] show "selectServer m order = ''''"
  proof (elim disjE exE conjE)
    fix pre post
    assume o: "order = pre @ selectServer m order # post"
      and lt: "serverTraffic (queueOf m (selectServer m order)) <s maxInt"
    from o have "selectServer m order \<in> set order" by (metis in_set_conv_decomp)
    with a have "serverTraffic (queueOf m (selectServer m order)) = maxInt" by blast
    with lt show ?thesis by (simp add: word_sless_alt)
  qed
qed

lemma selectServer_in_order:
  "selectServer m order \<noteq> '''' \<Longrightarrow> selectServer m order \<in> set order"
  using selectServer_cases [of m order] by (metis in_set_conv_decomp)

text \<open>
  C10. For a ledger whose keys are backend names (none is the empty string) and any
  traversal of it: if some backend's summed load is below the maximal \<open>int\<close>, the loop
  yields a key of the ledger; the loop yields no backend exactly when every backend's
  summed load equals the maximal \<open>int\<close>, which includes the empty ledger; and the
  dispatcher takes its "No servers available" branch, making no outbound call, exactly
  when the loop yields no backend.
\<close>

theorem no_servers_branch:
  assumes "traversal (traffic g) order" and "'''' \<notin> dom (traffic g)"
  shows "((\<exists>k \<in> dom (traffic g). serverTraffic (queueOf (traffic g) k) <s maxInt) \<longrightarrow>
            selectServer (traffic g) order \<in> dom (traffic g)) \<and>
         ((selectServer (traffic g) order = '''') =
            (\<forall>k \<in> dom (traffic g). serverTraffic (queueOf (traffic g) k) = maxInt)) \<and>
         ((effSent (handler g order client now rw r) = []) =
            (selectServer (traffic g) order = ''''))"
proof -
  from assms have d: "set order = dom (traffic g)" and n: "'''' \<notin> set order"
    by (simp_all add: traversal_def)
  have iff: "(selectServer (traffic g) order = '''') =
      (\<forall>k \<in> dom (traffic g). serverTraffic (queueOf (traffic g) k) = maxInt)"
    using selectServer_none_iff [OF n, of "traffic g"] d by simp
  have "selectServer (traffic g) order \<in> dom (traffic g)"
    if "\<exists>k \<in> dom (traffic g). serverTraffic (queueOf (traffic g) k) <s maxInt"
  proof -
    from that obtain k where "k \<in> dom (traffic g)"
      and "serverTraffic (queueOf (traffic g) k) <s maxInt" by blast
    then have "k \<in> dom (traffic g)" and "serverTraffic (queueOf (traffic g) k) \<noteq> maxInt"
      by (auto simp: word_sless_alt)
    then have "\<not> (\<forall>k \<in> dom (traffic g). serverTraffic (queueOf (traffic g) k) = maxInt)"
      by blast
    with iff have "selectServer (traffic g) order \<noteq> ''''" by simp
    then show ?thesis using selectServer_in_order d by blast
  qed
  with iff handler_sent show ?thesis by blast
qed

theorem no_servers_branch_witness:
  "traversal (traffic exGlobals) defaultPool \<and> '''' \<notin> dom (traffic exGlobals) \<and>
   serverTraffic (queueOf (traffic exGlobals) ''server2:8080'') <s maxInt \<and>
   selectServer (traffic exGlobals) defaultPool \<in> dom (traffic exGlobals) \<and>
   effSent (handler exGlobals defaultPool clientOk 12 freshWriter exRequest) \<noteq> []"
proof -
  have t: "traversal (traffic exGlobals) defaultPool"
    by (auto simp: traversal_def exGlobals_def exLedger_def defaultPool_def)
  have n: "'''' \<notin> dom (traffic exGlobals)"
    by (simp add: exGlobals_def exLedger_def)
  have k: "''server2:8080'' \<in> dom (traffic exGlobals)"
    by (simp add: exGlobals_def exLedger_def)
  have l: "serverTraffic (queueOf (traffic exGlobals) ''server2:8080'') <s maxInt"
    by (simp add: exGlobals_def exLedger_def queueOf_def serverTraffic_def word_sless_alt
        sint_maxInt)
  note r = no_servers_branch [OF t n, of clientOk 12 freshWriter exRequest]
  from r k l have s: "selectServer (traffic exGlobals) defaultPool \<in> dom (traffic exGlobals)"
    by blast
  with n have "selectServer (traffic exGlobals) defaultPool \<noteq> ''''" by auto
  with r have "effSent (handler exGlobals defaultPool clientOk 12 freshWriter exRequest) \<noteq> []"
    by blast
  with t n l s show ?thesis by simp
qed

text \<open>
  In a run, the keys of the ledger are the names of the pool at every moment, so the
  ledger of a pool of non-empty names never has the empty string as a key.
\<close>

lemma initTraffic_dom: "dom (initTraffic pool m) = dom m \<union> set pool"
  by (induction pool arbitrary: m) auto

lemma handler_dom:
  assumes "traversal (traffic g) order"
  shows "dom (effTraffic (handler g order client now rw r)) = dom (traffic g)"
proof (cases "selectServer (traffic g) order = ''''")
  case True
  then show ?thesis by (simp add: handler_def)
next
  case False
  then have "selectServer (traffic g) order \<in> set order" by (rule selectServer_in_order)
  with assms have "selectServer (traffic g) order \<in> dom (traffic g)"
    by (simp add: traversal_def)
  then have "insert (selectServer (traffic g) order) (dom (traffic g)) = dom (traffic g)"
    by blast
  with False show ?thesis
    by (simp add: handler_def forward_def Let_def incrementTraffic_def
        split: doResult.split readResult.split)
qed

lemma reachable_dom: "reachable cl pool g \<Longrightarrow> dom (traffic g) = set pool"
proof (induction rule: reachable.induct)
  case start
  show ?case by (simp add: mainInit_def flagParse_def packageInit_def initTraffic_dom)
next
  case (dispatch g order client now rw r)
  then show ?case by (simp add: handler_dom)
next
  case (sweep g tr)
  then show ?case by (simp add: reduceTraffic_dom traversal_def)
qed

section \<open>The health probe\<close>

text \<open>
  A backend that answers the probe with 204 No Content, a status of the success class,
  is reported unhealthy: the probe compares the status with 200.
\<close>

theorem health_other_success_status:
  "clientNoContent (healthRequest exGlobals ''server1:8080'') = DoResp noContent \<and>
   specSuccessClass (statusCode noContent) \<and>
   health exGlobals clientNoContent ''server1:8080'' = False"
  by (simp add: clientNoContent_def noContent_def specSuccessClass_def health_def StatusOK_def)

text \<open>
  C6, as the code has it. The probe is true exactly when the GET to
  \<open>{scheme}://{backend}/health\<close>, bounded by the timeout, completes without transport
  error and its status is 200. Every transport error (a timeout is one), and every other
  status, gives false; the probe is a total function of the network's answer.
\<close>

theorem health_true_iff_ok:
  "health g client dst =
     (\<exists>resp. client (healthRequest g dst) = DoResp resp \<and> statusCode resp = 200) \<and>
   reqMethod (healthRequest g dst) = ''GET'' \<and>
   urlScheme (healthRequest g dst) = scheme g \<and>
   urlHost (healthRequest g dst) = dst \<and>
   urlPath (healthRequest g dst) = ''/health'' \<and>
   reqCtx (healthRequest g dst) = Some (timeout g)"
  by (simp add: health_def healthRequest_def StatusOK_def withTimeout_def split: doResult.split)

theorem health_true_iff_ok_witness:
  "health exGlobals clientOk ''server1:8080'' \<and>
   \<not> health exGlobals clientDown ''non-existing-server:8080''"
proof -
  have "\<exists>resp. clientOk (healthRequest exGlobals ''server1:8080'') = DoResp resp \<and>
      statusCode resp = 200"
    by (simp add: clientOk_def exResponse_def)
  moreover have "\<not> (\<exists>resp. clientDown (healthRequest exGlobals ''non-existing-server:8080'')
      = DoResp resp \<and> statusCode resp = 200)"
    by (simp add: clientDown_def)
  ultimately show ?thesis
    using health_true_iff_ok [of exGlobals clientOk "''server1:8080''"]
      health_true_iff_ok [of exGlobals clientDown "''non-existing-server:8080''"]
    by blast
qed

section \<open>The timeout\<close>

lemma timeout_mainInit: "timeout (mainInit cl pool) = 3 * second"
  by (simp add: mainInit_def flagParse_def packageInit_def Let_def)

text \<open>
  C9. \<open>timeout\<close> is computed when the package is initialised, before \<open>flag.Parse\<close>
  runs, so it is 3 seconds whatever the command line says. Started with
  \<open>-timeout-sec=10\<close>, the flag's value is 10, and both the health probe and the
  forwarded call are still bounded by 3 seconds.
\<close>

theorem timeout_ignores_flag:
  "timeoutSec (mainInit slowFlags defaultPool) = 10 \<and>
   timeout (mainInit slowFlags defaultPool) = 3 * second \<and>
   reqCtx (healthRequest (mainInit slowFlags defaultPool) ''server1:8080'') = Some (3 * second) \<and>
   reqCtx (forwardRequest (mainInit slowFlags defaultPool) ''server1:8080'' exRequest)
     = Some (3 * second)"
  by (simp add: timeout_mainInit healthRequest_def forwardRequest_def withTimeout_def
      exRequest_def)
     (simp add: mainInit_def flagParse_def packageInit_def slowFlags_def noFlags_def Let_def)

section \<open>Relaying the response\<close>

lemma canon_lb_from: "canonicalMIMEHeaderKey ''lb-from'' = ''Lb-From''"
  by code_simp

lemma addValues_fields:
  "rwStatus (addValues k vals rw) = rwStatus rw \<and> rwBody (addValues k vals rw) = rwBody rw"
  by (induction vals arbitrary: rw) (simp_all add: headerAdd_def Let_def)

lemma addValues_header:
  "rwHeader (addValues k vals rw) x =
     (if vals \<noteq> [] \<and> x = canonicalMIMEHeaderKey k
      then Some (headerValues (rwHeader rw) (canonicalMIMEHeaderKey k) @ vals)
      else rwHeader rw x)"
  by (induction vals arbitrary: rw) (simp_all add: headerAdd_def Let_def headerValues_def)

lemma copyHeader_fields:
  "rwStatus (copyHeader hs rw) = rwStatus rw \<and> rwBody (copyHeader hs rw) = rwBody rw"
proof (induction hs arbitrary: rw)
  case Nil
  show ?case by simp
next
  case (Cons x hs)
  obtain k vals where x: "x = (k, vals)" by (cases x)
  have "copyHeader (x # hs) rw = copyHeader hs (addValues k vals rw)" using x by simp
  with Cons.IH [of "addValues k vals rw"] show ?case by (simp add: addValues_fields)
qed

lemma copyHeader_header:
  "wireHeader hs \<Longrightarrow> dom (rwHeader rw) \<inter> fst ` set hs = {} \<Longrightarrow>
   rwHeader (copyHeader hs rw) x =
     (case map_of hs x of None \<Rightarrow> rwHeader rw x | Some vals \<Rightarrow> Some vals)"
proof (induction hs arbitrary: rw)
  case Nil
  show ?case by simp
next
  case (Cons e hs)
  obtain k vals where e: "e = (k, vals)" by (cases e)
  let ?rw = "addValues k vals rw"
  from Cons.prems(1) e have c: "canonicalMIMEHeaderKey k = k" and v: "vals \<noteq> []"
    and fresh: "k \<notin> fst ` set hs" and w: "wireHeader hs"
    by (auto simp: wireHeader_def)
  from Cons.prems(2) e have kd: "k \<notin> dom (rwHeader rw)" by auto
  then have "headerValues (rwHeader rw) k = []" by (simp add: headerValues_def domIff)
  with c v have h1: "\<And>y. rwHeader ?rw y = (if y = k then Some vals else rwHeader rw y)"
    by (simp add: addValues_header)
  have "dom (rwHeader ?rw) \<subseteq> insert k (dom (rwHeader rw))"
    by (auto simp: h1 split: if_splits)
  with Cons.prems(2) fresh e have d: "dom (rwHeader ?rw) \<inter> fst ` set hs = {}" by auto
  from fresh have none: "map_of hs k = None" by (simp add: map_of_eq_None_iff)
  have "rwHeader (copyHeader (e # hs) rw) x = rwHeader (copyHeader hs ?rw) x"
    using e by simp
  also have "\<dots> = (case map_of hs x of None \<Rightarrow> rwHeader ?rw x | Some vals \<Rightarrow> Some vals)"
    by (rule Cons.IH [OF w d])
  also have "\<dots> = (case map_of (e # hs) x of None \<Rightarrow> rwHeader rw x | Some vals \<Rightarrow> Some vals)"
    using e none by (simp add: h1 split: option.split)
  finally show ?case .
qed

text \<open>
  With tracing enabled, a backend header named \<open>Lb-From\<close> does not reach the caller as
  the backend sent it: \<open>Header.Set\<close> replaces it by the name of the serving backend.
\<close>

theorem forward_replaces_trace_header:
  "traceEnabled traceGlobals \<and>
   clientRelabelled (forwardRequest traceGlobals ''server1:8080'' exRequest) = DoResp relabelled \<and>
   respBody relabelled = ReadOk [104, 105] \<and>
   wireHeader (respHeader relabelled) \<and>
   map_of (respHeader relabelled) ''Lb-From'' = Some [''server9:8080''] \<and>
   rwHeader (effRw (snd (forward traceGlobals clientRelabelled 12 ''server1:8080'' freshWriter
     exRequest))) ''Lb-From'' = Some [''server1:8080'']"
proof -
  have t: "traceEnabled traceGlobals"
    by (simp add: traceGlobals_def mainInit_def flagParse_def packageInit_def traceFlags_def
        noFlags_def)
  have k1: "canonicalMIMEHeaderKey ''Content-Type'' = ''Content-Type''" by code_simp
  have k2: "canonicalMIMEHeaderKey ''Lb-From'' = ''Lb-From''" by code_simp
  have w: "wireHeader (respHeader relabelled)"
    by (simp add: wireHeader_def relabelled_def k1 k2)
  show ?thesis using t w
    by (simp add: clientRelabelled_def relabelled_def forward_def Let_def headerSet_def
        canon_lb_from writeBytes_def writeHeader_def headerAdd_def k1 k2 freshWriter_def)
qed

text \<open>
  C5, as the code has it. On transport success with a readable body, a caller whose
  response is still untouched receives the backend's status code and the full buffered
  body. Without tracing its headers are exactly the backend's. With tracing they are the
  backend's with \<open>Lb-From\<close> set to the serving backend alone, in place of whatever the
  backend sent under that name.
\<close>

theorem forward_relays_response:
  assumes "client (forwardRequest g dst r) = DoResp resp"
    and "respBody resp = ReadOk bodyBytes"
    and "wireHeader (respHeader resp)"
  shows "fst (forward g client now dst freshWriter r) = None \<and>
         rwStatus (effRw (snd (forward g client now dst freshWriter r))) = Some (statusCode resp) \<and>
         rwBody (effRw (snd (forward g client now dst freshWriter r))) = bodyBytes \<and>
         rwHeader (effRw (snd (forward g client now dst freshWriter r))) =
           (if traceEnabled g then (map_of (respHeader resp))(''Lb-From'' \<mapsto> [dst])
            else map_of (respHeader resp))"
proof -
  let ?rw1 = "copyHeader (respHeader resp) freshWriter"
  have "dom (rwHeader freshWriter) \<inter> fst ` set (respHeader resp) = {}"
    by (simp add: freshWriter_def)
  from copyHeader_header [OF assms(3) this]
  have "\<And>x. rwHeader ?rw1 x = map_of (respHeader resp) x"
    by (simp add: freshWriter_def split: option.split)
  then have h: "rwHeader ?rw1 = map_of (respHeader resp)" by (rule ext)
  have s: "rwStatus ?rw1 = None" and b: "rwBody ?rw1 = []"
    by (simp_all add: copyHeader_fields freshWriter_def)
  show ?thesis using assms(1,2) h s b
    by (simp add: forward_def Let_def headerSet_def canon_lb_from writeBytes_def
        writeHeader_def)
qed

theorem forward_relays_response_witness:
  "clientOk (forwardRequest exGlobals ''server2:8080'' exRequest) = DoResp exResponse \<and>
   respBody exResponse = ReadOk [104, 105] \<and>
   wireHeader (respHeader exResponse) \<and>
   rwStatus (effRw (snd (forward exGlobals clientOk 12 ''server2:8080'' freshWriter exRequest)))
     = Some 200 \<and>
   rwBody (effRw (snd (forward exGlobals clientOk 12 ''server2:8080'' freshWriter exRequest)))
     = [104, 105] \<and>
   rwHeader (effRw (snd (forward exGlobals clientOk 12 ''server2:8080'' freshWriter exRequest)))
     = [''Content-Type'' \<mapsto> [''text/plain''], ''Data-Size'' \<mapsto> [''2'']]"
proof -
  have c: "clientOk (forwardRequest exGlobals ''server2:8080'' exRequest) = DoResp exResponse"
    by (simp add: clientOk_def)
  have b: "respBody exResponse = ReadOk [104, 105]" by (simp add: exResponse_def)
  have k1: "canonicalMIMEHeaderKey ''Content-Type'' = ''Content-Type''" by code_simp
  have k2: "canonicalMIMEHeaderKey ''Data-Size'' = ''Data-Size''" by code_simp
  have w: "wireHeader (respHeader exResponse)"
    by (simp add: wireHeader_def exResponse_def k1 k2)
  have t: "\<not> traceEnabled exGlobals"
    by (simp add: exGlobals_def mainInit_def flagParse_def packageInit_def noFlags_def)
  have m: "map_of (respHeader exResponse) =
      [''Content-Type'' \<mapsto> [''text/plain''], ''Data-Size'' \<mapsto> [''2'']]"
    by (auto simp: exResponse_def)
  from forward_relays_response [where client = clientOk and g = exGlobals
      and dst = "''server2:8080''" and r = exRequest and now = 12, OF c b w] c b w t m
  show ?thesis by (simp add: exResponse_def)
qed

end
